theory Spec2Isabelle
  imports Main "HOL-Library.Sublist"
begin

section \<open>Strings and paths\<close>

text \<open>
  Python strings are modelled as \<open>string\<close>. The three string tests of the link
  scan are \<open>x in s\<close> (contiguous substring), \<open>s.endswith(x)\<close> and
  \<open>s.lower()\<close> (on the ASCII letters; other characters are left as they are).
\<close>

fun str_contains :: "string \<Rightarrow> string \<Rightarrow> bool" where
  "str_contains sub [] = (sub = [])"
| "str_contains sub (c # s) = (prefix sub (c # s) \<or> str_contains sub s)"

definition endswith :: "string \<Rightarrow> string \<Rightarrow> bool" where
  "endswith s x = suffix x s"

definition lower_char :: "char \<Rightarrow> char" where
  "lower_char c =
     (case map_of (zip ''ABCDEFGHIJKLMNOPQRSTUVWXYZ'' ''abcdefghijklmnopqrstuvwxyz'') c of
        Some d \<Rightarrow> d | None \<Rightarrow> c)"

definition lower :: "string \<Rightarrow> string" where
  "lower s = map lower_char s"

text \<open>
  \<open>os.path.join(a, b)\<close> in its POSIX form: an absolute \<open>b\<close> replaces \<open>a\<close>, an
  empty \<open>a\<close> or one that ends with the separator takes \<open>b\<close> directly, otherwise a
  separator is put between them. \<open>os.path.basename(p)\<close> is what follows the last
  separator.
\<close>

definition join :: "string \<Rightarrow> string \<Rightarrow> string" where
  "join a b =
     (if prefix ''/'' b then b
      else if a = [] \<or> suffix ''/'' a then a @ b
      else a @ ''/'' @ b)"

definition basename :: "string \<Rightarrow> string" where
  "basename p = rev (takeWhile (\<lambda>c. c \<noteq> CHR ''/'') (rev p))"

text \<open>
  The file system addresses an entry by the list of its path components. A path string
  is resolved by cutting it at the separators and dropping empty components; the
  components \<open>.\<close> and \<open>..\<close> and symbolic links are not interpreted, and a relative
  path is read from the root.
\<close>

type_synonym path = "string list"

fun split_sep :: "string \<Rightarrow> string \<Rightarrow> string list" where
  "split_sep acc [] = [rev acc]"
| "split_sep acc (c # s) =
     (if c = CHR ''/'' then rev acc # split_sep [] s else split_sep (c # acc) s)"

definition resolve :: "string \<Rightarrow> path" where
  "resolve s = filter (\<lambda>x. x \<noteq> []) (split_sep [] s)"

section \<open>The link scan\<close>

text \<open>
  The listing page is the list of the anchors \<open>soup.find_all("a")\<close> yields, in parser
  order; each anchor is its \<open>link.get("href")\<close>, \<open>None\<close> when the attribute is absent.
\<close>

text \<open>
  The exceptions the script can meet. \<open>IOError\<close> is Python 3's alias of
  \<open>OSError\<close>, whose subclasses (\<open>PermissionError\<close>, \<open>FileNotFoundError\<close>,
  \<open>IsADirectoryError\<close>, \<open>shutil.Error\<close>, ...) are not told apart.
\<close>

datatype py_error =
    TypeError | OSError | KeyError | IndexError | BadZipFile | RequestException | ValueError

definition link_matches :: "string \<Rightarrow> string \<Rightarrow> string \<Rightarrow> bool" where
  "link_matches version os_tag file_url \<longleftrightarrow>
     str_contains (''blender-'' @ version) file_url \<and> str_contains os_tag file_url
     \<and> endswith file_url ''.zip''"

text \<open>
  Every path through the loop body of a matching anchor ends in \<open>break\<close> or in an
  exception, so the loop is a search for the first matching anchor. On an anchor without
  \<open>href\<close> the test \<open>"blender-..." in None\<close> raises \<open>TypeError\<close>.
\<close>

datatype scan_result = Selected string | NotFound | Raised py_error

fun scan_links :: "string \<Rightarrow> string \<Rightarrow> string option list \<Rightarrow> scan_result" where
  "scan_links version os_tag [] = NotFound"
| "scan_links version os_tag (None # links) = Raised TypeError"
| "scan_links version os_tag (Some file_url # links) =
     (if link_matches version os_tag file_url then Selected file_url
      else scan_links version os_tag links)"

section \<open>The file system\<close>

text \<open>
  The file system is an association list from resolved paths to nodes, read through
  \<open>map_of\<close>; the root is always a directory. Which operations the operating
  system refuses (permissions, a full disk) is a parameter of the environment: the
  predicate \<open>denied\<close> on the operations below.
\<close>

datatype node = File string | Dir

type_synonym filesystem = "(path \<times> node) list"

datatype fs_op =
    OpOpenWrite path | OpWriteData path | OpRead path | OpRemove path | OpMkdir path
  | OpMove path

definition lookup :: "filesystem \<Rightarrow> path \<Rightarrow> node option" where
  "lookup fs p = (if p = [] then Some Dir else map_of fs p)"

definition exists_path :: "filesystem \<Rightarrow> path \<Rightarrow> bool" where
  "exists_path fs p \<longleftrightarrow> lookup fs p \<noteq> None"

definition drop_entry :: "path \<Rightarrow> filesystem \<Rightarrow> filesystem" where
  "drop_entry p fs = filter (\<lambda>e. fst e \<noteq> p) fs"

definition put :: "path \<Rightarrow> node \<Rightarrow> filesystem \<Rightarrow> filesystem" where
  "put p n fs = (p, n) # drop_entry p fs"

definition listdir :: "filesystem \<Rightarrow> path \<Rightarrow> string list" where
  "listdir fs d =
     remdups (map (last \<circ> fst) (filter (\<lambda>e. fst e \<noteq> [] \<and> butlast (fst e) = d) fs))"

text \<open>
  \<open>open(p, "w")\<close> creates or truncates the file; it fails when the system refuses
  it, when \<open>p\<close> is a directory and when the parent of \<open>p\<close> is not a directory.
  \<open>f.write(data)\<close> appends to the open file.
\<close>

definition open_w :: "(fs_op \<Rightarrow> bool) \<Rightarrow> filesystem \<Rightarrow> path \<Rightarrow> py_error + filesystem" where
  "open_w den fs p =
     (if den (OpOpenWrite p) then Inl OSError
      else case lookup fs p of
        Some Dir \<Rightarrow> Inl OSError
      | _ \<Rightarrow> if lookup fs (butlast p) = Some Dir then Inr (put p (File []) fs)
             else Inl OSError)"

definition write_data ::
  "(fs_op \<Rightarrow> bool) \<Rightarrow> filesystem \<Rightarrow> path \<Rightarrow> string \<Rightarrow> py_error + filesystem" where
  "write_data den fs p data =
     (if den (OpWriteData p) then Inl OSError
      else case lookup fs p of
        Some (File c) \<Rightarrow> Inr (put p (File (c @ data)) fs)
      | _ \<Rightarrow> Inl OSError)"

definition read_file :: "(fs_op \<Rightarrow> bool) \<Rightarrow> filesystem \<Rightarrow> path \<Rightarrow> py_error + string" where
  "read_file den fs p =
     (if den (OpRead p) then Inl OSError
      else case lookup fs p of Some (File c) \<Rightarrow> Inr c | _ \<Rightarrow> Inl OSError)"

definition os_remove :: "(fs_op \<Rightarrow> bool) \<Rightarrow> filesystem \<Rightarrow> path \<Rightarrow> py_error + filesystem" where
  "os_remove den fs p =
     (if den (OpRemove p) then Inl OSError
      else case lookup fs p of Some (File c) \<Rightarrow> Inr (drop_entry p fs) | _ \<Rightarrow> Inl OSError)"

text \<open>
  \<open>with open(p, "w") as f: f.write(data)\<close>: the pair is the exception raised, if
  any, and the file system as it is left. A refused write leaves the file the open
  has just created or truncated.
\<close>

definition write_file ::
  "(fs_op \<Rightarrow> bool) \<Rightarrow> filesystem \<Rightarrow> path \<Rightarrow> string \<Rightarrow> py_error option \<times> filesystem" where
  "write_file den fs p data =
     (case open_w den fs p of
        Inl e \<Rightarrow> (Some e, fs)
      | Inr fs1 \<Rightarrow>
          (case write_data den fs1 p data of
             Inl e \<Rightarrow> (Some e, fs1)
           | Inr fs2 \<Rightarrow> (None, fs2)))"

text \<open>
  \<open>os.makedirs(p, exist_ok=True)\<close> walks the prefixes of \<open>p\<close> from the root: an
  existing directory is kept, a missing one is created, a file in the way raises.
\<close>

fun mkdirs ::
  "(fs_op \<Rightarrow> bool) \<Rightarrow> path \<Rightarrow> string list \<Rightarrow> filesystem \<Rightarrow> py_error option \<times> filesystem" where
  "mkdirs den pre [] fs = (None, fs)"
| "mkdirs den pre (c # cs) fs =
     (case lookup fs (pre @ [c]) of
        Some Dir \<Rightarrow> mkdirs den (pre @ [c]) cs fs
      | Some (File x) \<Rightarrow> (Some OSError, fs)
      | None \<Rightarrow>
          if den (OpMkdir (pre @ [c])) then (Some OSError, fs)
          else mkdirs den (pre @ [c]) cs (put (pre @ [c]) Dir fs))"

definition makedirs :: "(fs_op \<Rightarrow> bool) \<Rightarrow> path \<Rightarrow> filesystem \<Rightarrow> py_error option \<times> filesystem" where
  "makedirs den p fs = mkdirs den [] p fs"

text \<open>
  \<open>shutil.rmtree(p, onerror=...)\<close> with a callback that only prints: an entry under
  \<open>p\<close> survives when the system refuses to remove it or something below it, every
  other entry is removed, and nothing is raised. On a path that is not a directory the
  callback is called and nothing is removed. The second component lists the paths the
  callback was called on.
\<close>

definition blocked :: "(fs_op \<Rightarrow> bool) \<Rightarrow> filesystem \<Rightarrow> path \<Rightarrow> bool" where
  "blocked den fs q \<longleftrightarrow> list_ex (\<lambda>e. prefix q (fst e) \<and> den (OpRemove (fst e))) fs"

definition rmtree :: "(fs_op \<Rightarrow> bool) \<Rightarrow> path \<Rightarrow> filesystem \<Rightarrow> filesystem \<times> path list" where
  "rmtree den p fs =
     (case lookup fs p of
        Some Dir \<Rightarrow>
          (filter (\<lambda>e. \<not> prefix p (fst e) \<or> blocked den fs (fst e)) fs,
           map fst (filter (\<lambda>e. prefix p (fst e) \<and> blocked den fs (fst e)) fs))
      | _ \<Rightarrow> (fs, [p]))"

text \<open>
  \<open>shutil.move(src, dst)\<close> of an entry of the scratch directory. Into an existing
  directory the entry keeps its name, and a name already there raises; otherwise the
  entry is renamed to \<open>dst\<close> itself, which needs the parent of \<open>dst\<close> and, when
  \<open>dst\<close> is a file, a file as source.
\<close>

definition subtree :: "filesystem \<Rightarrow> path \<Rightarrow> filesystem" where
  "subtree t q = map (\<lambda>e. (drop (length q) (fst e), snd e)) (filter (\<lambda>e. prefix q (fst e)) t)"

definition graft :: "path \<Rightarrow> filesystem \<Rightarrow> filesystem \<Rightarrow> filesystem" where
  "graft dst sub fs = map (\<lambda>e. (dst @ fst e, snd e)) sub @ filter (\<lambda>e. \<not> prefix dst (fst e)) fs"

definition move ::
  "(fs_op \<Rightarrow> bool) \<Rightarrow> filesystem \<Rightarrow> path \<Rightarrow> path \<Rightarrow> filesystem \<Rightarrow> py_error option \<times> filesystem" where
  "move den scratch src dst fs =
     (case lookup fs dst of
        Some Dir \<Rightarrow>
          (let real_dst = dst @ [last src] in
           if exists_path fs real_dst \<or> den (OpMove real_dst) then (Some OSError, fs)
           else (None, graft real_dst (subtree scratch src) fs))
      | Some (File c) \<Rightarrow>
          (case lookup scratch src of
             Some (File x) \<Rightarrow>
               if den (OpMove dst) then (Some OSError, fs)
               else (None, graft dst (subtree scratch src) fs)
           | _ \<Rightarrow> (Some OSError, fs))
      | None \<Rightarrow>
          if lookup fs (butlast dst) = Some Dir \<and> \<not> den (OpMove dst)
          then (None, graft dst (subtree scratch src) fs)
          else (Some OSError, fs))"

fun move_all ::
  "(fs_op \<Rightarrow> bool) \<Rightarrow> filesystem \<Rightarrow> path \<Rightarrow> string list \<Rightarrow> path \<Rightarrow> filesystem
     \<Rightarrow> py_error option \<times> filesystem" where
  "move_all den scratch folder [] dst fs = (None, fs)"
| "move_all den scratch folder (item # items) dst fs =
     (case move den scratch (folder @ [item]) dst fs of
        (Some e, fs1) \<Rightarrow> (Some e, fs1)
      | (None, fs1) \<Rightarrow> move_all den scratch folder items dst fs1)"

section \<open>The script\<close>

text \<open>
  The lines the script prints, in the order of the source: the unsupported-system
  message, the two lines of the permission message, the phase announcements, one line
  for each entry \<open>rmtree\<close> could not remove, the line of the \<open>except Exception\<close>
  handler, the success line and the not-found line.
\<close>

datatype message =
    UnsupportedOS string | NoWritePermission string | RestartAsAdmin | Fetching | Looking
  | NoNewVersion | FoundLatest string | Downloading | Extracting | ErrorRemoving path
  | ErrorOccurred | Installed string | VersionNotFound

datatype outcome = Exit nat | Uncaught py_error

text \<open>
  \<open>--os\<close> is declared with \<open>choices=AVAILABLE_OS_CONFIGS.keys()\<close>, so a parsed
  value is one of the three keys.
\<close>

datatype os_choice = Windows | Linux | MacOS

fun os_name :: "os_choice \<Rightarrow> string" where
  "os_name Windows = ''windows''"
| "os_name Linux = ''linux''"
| "os_name MacOS = ''macos''"

record args =
  arg_version :: string
  arg_os :: "os_choice option"
  arg_base_dir :: "string option"
  arg_url :: string

text \<open>
  The answer to the streamed GET of the archive: whether
  \<open>int(headers.get("content-length", 0))\<close> succeeds, the chunks \<open>iter_content\<close>
  yields, and whether the stream breaks after them.
\<close>

record response =
  header_ok :: bool
  chunks :: "string list"
  interrupted :: bool

text \<open>
  What the script reads from outside: the host system name, the temporary directory,
  the operations the file system refuses, the two GET requests (the listing as the
  anchors the HTML parser finds in it), and the zip library: whether
  \<open>ZipFile(path)\<close> opens a file of the given contents, and the contents of an empty
  directory after \<open>extractall\<close> into it.
\<close>

record env =
  platform_system :: string
  gettempdir :: string
  denied :: "fs_op \<Rightarrow> bool"
  get_listing :: "string \<Rightarrow> py_error + string option list"
  get_archive :: "string \<Rightarrow> py_error + response"
  zip_opens :: "string \<Rightarrow> bool"
  zip_extractall :: "string \<Rightarrow> py_error + filesystem"

text \<open>The state a run changes: the files, the lines printed, the GET requests sent.\<close>

record state =
  files :: filesystem
  printed :: "message list"
  requests :: "string list"

definition say :: "message \<Rightarrow> state \<Rightarrow> state" where
  "say m st = st\<lparr>printed := printed st @ [m]\<rparr>"

definition AVAILABLE_OS_CONFIGS :: "(string \<times> string) list" where
  "AVAILABLE_OS_CONFIGS =
     [(''windows'', ''C:/Program Files/Blender Foundation''),
      (''linux'', ''/usr/local/blender''),
      (''macos'', ''/Applications/Blender.app'')]"

definition is_valid_zip :: "env \<Rightarrow> filesystem \<Rightarrow> path \<Rightarrow> bool" where
  "is_valid_zip ev fs p =
     (case read_file (denied ev) fs p of Inr c \<Rightarrow> zip_opens ev c | Inl e \<Rightarrow> False)"

definition resolve_os :: "env \<Rightarrow> args \<Rightarrow> string" where
  "resolve_os ev a =
     (case arg_os a of None \<Rightarrow> lower (platform_system ev) | Some c \<Rightarrow> os_name c)"

definition probe_path :: "string \<Rightarrow> path" where
  "probe_path base_dir = resolve (join base_dir ''_temp_test.txt'')"

text \<open>
  The write-access probe. \<open>None\<close> lets the run continue; the handler of
  \<open>IOError\<close> prints and exits with 1; the \<open>os.remove\<close> of the \<open>else\<close> branch is
  outside the \<open>try\<close>.
\<close>

definition probe :: "env \<Rightarrow> string \<Rightarrow> state \<Rightarrow> outcome option \<times> state" where
  "probe ev base_dir st =
     (case write_file (denied ev) (files st) (probe_path base_dir) ''TEST'' of
        (Some e, f1) \<Rightarrow>
          if e = OSError
          then (Some (Exit 1),
                say RestartAsAdmin (say (NoWritePermission base_dir) (st\<lparr>files := f1\<rparr>)))
          else (Some (Uncaught e), st\<lparr>files := f1\<rparr>)
      | (None, f1) \<Rightarrow>
          (case os_remove (denied ev) f1 (probe_path base_dir) of
             Inl e \<Rightarrow> (Some (Uncaught e), st\<lparr>files := f1\<rparr>)
           | Inr f2 \<Rightarrow> (None, st\<lparr>files := f2\<rparr>)))"

definition download_path :: "env \<Rightarrow> string \<Rightarrow> path" where
  "download_path ev file_url = resolve (join (gettempdir ev) (basename file_url))"

fun write_chunks ::
  "(fs_op \<Rightarrow> bool) \<Rightarrow> filesystem \<Rightarrow> path \<Rightarrow> string list \<Rightarrow> py_error option \<times> filesystem" where
  "write_chunks den fs p [] = (None, fs)"
| "write_chunks den fs p (c # cs) =
     (case write_data den fs p c of
        Inl e \<Rightarrow> (Some e, fs)
      | Inr fs1 \<Rightarrow> write_chunks den fs1 p cs)"

text \<open>The streamed download of lines 97 to 105; the progress bar is not modelled.\<close>

definition fetch_archive :: "env \<Rightarrow> string \<Rightarrow> state \<Rightarrow> py_error option \<times> state" where
  "fetch_archive ev file_url st =
     (let st1 = (say Downloading st)\<lparr>requests := requests st @ [file_url]\<rparr> in
      case get_archive ev file_url of
        Inl e \<Rightarrow> (Some e, st1)
      | Inr r \<Rightarrow>
          if \<not> header_ok r then (Some ValueError, st1)
          else
            (case open_w (denied ev) (files st1) (download_path ev file_url) of
               Inl e \<Rightarrow> (Some e, st1)
             | Inr f1 \<Rightarrow>
                 (case write_chunks (denied ev) f1 (download_path ev file_url) (chunks r) of
                    (Some e, f2) \<Rightarrow> (Some e, st1\<lparr>files := f2\<rparr>)
                  | (None, f2) \<Rightarrow>
                      if interrupted r then (Some RequestException, st1\<lparr>files := f2\<rparr>)
                      else (None, st1\<lparr>files := f2\<rparr>))))"

definition download_stage :: "env \<Rightarrow> string \<Rightarrow> state \<Rightarrow> py_error option \<times> state" where
  "download_stage ev file_url st =
     (if \<not> exists_path (files st) (download_path ev file_url)
         \<or> \<not> is_valid_zip ev (files st) (download_path ev file_url)
      then
        if exists_path (files st) (download_path ev file_url)
        then
          (case os_remove (denied ev) (files st) (download_path ev file_url) of
             Inl e \<Rightarrow> (Some e, st)
           | Inr f1 \<Rightarrow> fetch_archive ev file_url (st\<lparr>files := f1\<rparr>))
        else fetch_archive ev file_url st
      else (None, st))"

text \<open>
  The \<open>try\<close> block of lines 110 to 115: the old install directory is removed as far
  as the system allows and made again; an exception is printed and the run goes on.
\<close>

definition wipe :: "env \<Rightarrow> path \<Rightarrow> state \<Rightarrow> state" where
  "wipe ev latest st =
     (let st1 =
        (if exists_path (files st) latest
         then (case rmtree (denied ev) latest (files st) of
                 (f1, errs) \<Rightarrow> st\<lparr>files := f1, printed := printed st @ map ErrorRemoving errs\<rparr>)
         else st)
      in case makedirs (denied ev) latest (files st1) of
           (None, f2) \<Rightarrow> st1\<lparr>files := f2\<rparr>
         | (Some e, f2) \<Rightarrow> say ErrorOccurred (st1\<lparr>files := f2\<rparr>))"

text \<open>
  Lines 108 to 120. The scratch directory is fresh and is removed when the \<open>with\<close>
  block is left, so its contents are a local value: what \<open>extractall\<close> puts there.
\<close>

definition extract_install :: "env \<Rightarrow> path \<Rightarrow> path \<Rightarrow> state \<Rightarrow> py_error option \<times> state" where
  "extract_install ev latest dp st =
     (let st2 = wipe ev latest (say Extracting st) in
      case read_file (denied ev) (files st2) dp of
        Inl e \<Rightarrow> (Some e, st2)
      | Inr content \<Rightarrow>
          if \<not> zip_opens ev content then (Some BadZipFile, st2)
          else
            (case zip_extractall ev content of
               Inl e \<Rightarrow> (Some e, st2)
             | Inr scratch \<Rightarrow>
                 (case listdir scratch [] of
                    [] \<Rightarrow> (Some IndexError, st2)
                  | folder # others \<Rightarrow>
                      (case lookup scratch [folder] of
                         Some Dir \<Rightarrow>
                           (case move_all (denied ev) scratch [folder] (listdir scratch [folder])
                                   latest (files st2) of
                              (r, f3) \<Rightarrow> (r, st2\<lparr>files := f3\<rparr>))
                       | _ \<Rightarrow> (Some OSError, st2)))))"

definition latest_dir :: "string \<Rightarrow> string \<Rightarrow> string" where
  "latest_dir base_dir ver = join base_dir (''Blender '' @ ver)"

definition version_file :: "string \<Rightarrow> string \<Rightarrow> string" where
  "version_file base_dir ver = join (latest_dir base_dir ver) ''.blender_build''"

text \<open>Lines 89 to 127: download, extract and install, write the marker.\<close>

definition install_build :: "env \<Rightarrow> string \<Rightarrow> string \<Rightarrow> string \<Rightarrow> state \<Rightarrow> outcome \<times> state" where
  "install_build ev base_dir ver file_url st =
     (case download_stage ev file_url (say (FoundLatest file_url) st) of
        (Some e, st1) \<Rightarrow> (Uncaught e, st1)
      | (None, st1) \<Rightarrow>
          (case extract_install ev (resolve (latest_dir base_dir ver))
                  (download_path ev file_url) st1 of
             (Some e, st2) \<Rightarrow> (Uncaught e, st2)
           | (None, st2) \<Rightarrow>
               (case write_file (denied ev) (files st2) (resolve (version_file base_dir ver))
                       file_url of
                  (Some e, f3) \<Rightarrow> (Uncaught e, st2\<lparr>files := f3\<rparr>)
                | (None, f3) \<Rightarrow> (Exit 0, say (Installed ver) (st2\<lparr>files := f3\<rparr>)))))"

text \<open>Lines 82 to 88 and what follows them: the body of the loop on a matching link.\<close>

definition handle_match :: "env \<Rightarrow> string \<Rightarrow> string \<Rightarrow> string \<Rightarrow> state \<Rightarrow> outcome \<times> state" where
  "handle_match ev base_dir ver file_url st =
     (if exists_path (files st) (resolve (version_file base_dir ver))
      then
        (case read_file (denied ev) (files st) (resolve (version_file base_dir ver)) of
           Inl e \<Rightarrow> (Uncaught e, st)
         | Inr c \<Rightarrow>
             if c = file_url then (Exit 0, say NoNewVersion st)
             else install_build ev base_dir ver file_url st)
      else install_build ev base_dir ver file_url st)"

text \<open>Lines 71 to 130: fetch the listing, scan it, act on the first matching link.\<close>

definition fetch_and_install :: "env \<Rightarrow> args \<Rightarrow> string \<Rightarrow> string \<Rightarrow> state \<Rightarrow> outcome \<times> state" where
  "fetch_and_install ev a os_tag base_dir st =
     (let st2 = (say Fetching st)\<lparr>requests := requests st @ [arg_url a]\<rparr> in
      case get_listing ev (arg_url a) of
        Inl e \<Rightarrow> (Uncaught e, st2)
      | Inr links \<Rightarrow>
          (case scan_links (arg_version a) os_tag links of
             NotFound \<Rightarrow> (Exit 0, say VersionNotFound (say Looking st2))
           | Raised e \<Rightarrow> (Uncaught e, say Looking st2)
           | Selected file_url \<Rightarrow>
               handle_match ev base_dir (arg_version a) file_url (say Looking st2)))"

text \<open>
  Lines 52 to 55: the base directory given on the command line, or else
  \<open>AVAILABLE_OS_CONFIGS[args.os]\<close>, which raises \<open>KeyError\<close> on a missing key.
\<close>

definition base_dir_of :: "env \<Rightarrow> args \<Rightarrow> string option" where
  "base_dir_of ev a =
     (case arg_base_dir a of
        None \<Rightarrow> map_of AVAILABLE_OS_CONFIGS (resolve_os ev a)
      | Some d \<Rightarrow> Some d)"

text \<open>The whole script, from the resolution of the system tag on.\<close>

definition main :: "env \<Rightarrow> args \<Rightarrow> state \<Rightarrow> outcome \<times> state" where
  "main ev a st =
     (let os_tag = resolve_os ev a in
      if lower os_tag \<notin> set (map fst AVAILABLE_OS_CONFIGS)
      then (Exit 1, say (UnsupportedOS os_tag) st)
      else
        (case base_dir_of ev a of
           None \<Rightarrow> (Uncaught KeyError, st)
         | Some base_dir \<Rightarrow>
             (case probe ev base_dir st of
                (Some oc, st1) \<Rightarrow> (oc, st1)
              | (None, st1) \<Rightarrow> fetch_and_install ev a os_tag base_dir st1)))"

section \<open>Well-formed file systems\<close>

text \<open>A file system is a tree when the parent of every entry is a directory.\<close>

definition wf_fs :: "filesystem \<Rightarrow> bool" where
  "wf_fs fs \<longleftrightarrow> list_all (\<lambda>e. fst e \<noteq> [] \<and> lookup fs (butlast (fst e)) = Some Dir) fs"

section \<open>The closing lines of a run\<close>



section \<open>A sample run\<close>

text \<open>
  A host that refuses nothing, a listing with one matching link, an archive with one
  top-level folder holding the files \<open>A\<close> and \<open>B\<close>, and a file system with the
  base directory \<open>/opt\<close> and the temporary directory \<open>/tmp\<close>.
\<close>

definition demo_env :: env where
  "demo_env =
     \<lparr>platform_system = ''Linux'', gettempdir = ''/tmp'', denied = (\<lambda>op. False),
      get_listing = (\<lambda>u. Inr [Some ''index.html'',
                               Some ''https://b.org/blender-4.1.0-linux64.zip'']),
      get_archive = (\<lambda>u. Inr \<lparr>header_ok = True, chunks = [''PK'', ''1''], interrupted = False\<rparr>),
      zip_opens = (\<lambda>c. c = ''PK1''),
      zip_extractall = (\<lambda>c. Inr [([''blender-4.1''], Dir),
                                 ([''blender-4.1'', ''A''], File ''a''),
                                 ([''blender-4.1'', ''B''], File ''b'')])\<rparr>"

definition demo_args :: args where
  "demo_args = \<lparr>arg_version = ''4.1'', arg_os = None, arg_base_dir = Some ''/opt'',
                 arg_url = ''https://b.org/''\<rparr>"

definition demo_state :: state where
  "demo_state = \<lparr>files = [([''opt''], Dir), ([''tmp''], Dir)], printed = [], requests = []\<rparr>"

text \<open>The state the sample run ends in.\<close>

definition demo_installed :: state where
  "demo_installed =
     \<lparr>files =
        [([''opt'', ''Blender 4.1'', ''.blender_build''],
          File ''https://b.org/blender-4.1.0-linux64.zip''),
         ([''opt'', ''Blender 4.1'', ''B''], File ''b''),
         ([''opt'', ''Blender 4.1'', ''A''], File ''a''),
         ([''opt'', ''Blender 4.1''], Dir),
         ([''tmp'', ''blender-4.1.0-linux64.zip''], File ''PK1''),
         ([''opt''], Dir), ([''tmp''], Dir)],
      printed = [FoundLatest ''https://b.org/blender-4.1.0-linux64.zip'', Downloading,
                 Extracting, Installed ''4.1''],
      requests = [''https://b.org/blender-4.1.0-linux64.zip'']\<rparr>"

text \<open>A state with an older build installed and nothing downloaded.\<close>

definition demo_stale :: state where
  "demo_stale =
     \<lparr>files =
        [([''opt'', ''Blender 4.1'', ''.blender_build''],
          File ''https://b.org/blender-4.1.0-linux64-old.zip''),
         ([''opt'', ''Blender 4.1'', ''A''], File ''old''),
         ([''opt'', ''Blender 4.1''], Dir),
         ([''opt''], Dir), ([''tmp''], Dir)],
      printed = [], requests = []\<rparr>"


section \<open>Properties of the link scan\<close>

lemma scan_links_skip:
  "\<forall>h \<in> set pre. \<not> link_matches ver tag h \<Longrightarrow>
     scan_links ver tag (map Some pre @ rest) = scan_links ver tag rest"
  by (induction pre) simp_all

lemma scan_links_selected_split:
  "scan_links ver tag links = Selected u \<Longrightarrow>
     \<exists>pre post. links = map Some pre @ Some u # post \<and> link_matches ver tag u
       \<and> (\<forall>h \<in> set pre. \<not> link_matches ver tag h)"
proof (induction links)
  case Nil
  then show ?case by simp
next
  case (Cons x links)
  show ?case
  proof (cases x)
    case None
    with Cons.prems show ?thesis by simp
  next
    case (Some h)
    show ?thesis
    proof (cases "link_matches ver tag h")
      case True
      with Cons.prems Some have "x # links = map Some [] @ Some u # links" "link_matches ver tag u"
        by simp_all
      then show ?thesis by fastforce
    next
      case False
      with Cons.prems Some have "scan_links ver tag links = Selected u" by simp
      from Cons.IH [OF this] obtain pre post where
        "links = map Some pre @ Some u # post" "link_matches ver tag u"
        "\<forall>k \<in> set pre. \<not> link_matches ver tag k" by blast
      with False Some have "x # links = map Some (h # pre) @ Some u # post"
        "\<forall>k \<in> set (h # pre). \<not> link_matches ver tag k" by simp_all
      with \<open>link_matches ver tag u\<close> show ?thesis by blast
    qed
  qed
qed

lemma scan_links_raised_split:
  "scan_links ver tag links = Raised e \<Longrightarrow>
     e = TypeError \<and> (\<exists>pre post. links = map Some pre @ None # post
       \<and> (\<forall>h \<in> set pre. \<not> link_matches ver tag h))"
proof (induction links)
  case Nil
  then show ?case by simp
next
  case (Cons x links)
  show ?case
  proof (cases x)
    case None
    with Cons.prems have "e = TypeError" "x # links = map Some [] @ None # links" by simp_all
    then show ?thesis by fastforce
  next
    case (Some h)
    with Cons.prems have nm: "\<not> link_matches ver tag h" and "scan_links ver tag links = Raised e"
      by (simp_all split: if_splits)
    from Cons.IH [OF this(2)] obtain pre post where
      "e = TypeError" "links = map Some pre @ None # post"
      "\<forall>k \<in> set pre. \<not> link_matches ver tag k" by blast
    with nm Some have "x # links = map Some (h # pre) @ None # post"
      "\<forall>k \<in> set (h # pre). \<not> link_matches ver tag k" by simp_all
    with \<open>e = TypeError\<close> show ?thesis by blast
  qed
qed

text \<open>
  C1 (amended). The scan selects \<open>u\<close> exactly when \<open>u\<close> is the href of the first
  anchor, in parser order, whose href contains \<open>blender-<version>\<close>, contains the
  system tag and ends with \<open>.zip\<close>, and every anchor before it carries an href
  (that fails one of the three tests). Anchors after it are not looked at.
\<close>

theorem scan_links_first_match:
  "scan_links ver tag links = Selected u \<longleftrightarrow>
     (\<exists>pre post. links = map Some pre @ Some u # post \<and> link_matches ver tag u
        \<and> (\<forall>h \<in> set pre. \<not> link_matches ver tag h))"
proof
  assume "scan_links ver tag links = Selected u"
  then show "\<exists>pre post. links = map Some pre @ Some u # post \<and> link_matches ver tag u
        \<and> (\<forall>h \<in> set pre. \<not> link_matches ver tag h)"
    by (rule scan_links_selected_split)
next
  assume "\<exists>pre post. links = map Some pre @ Some u # post \<and> link_matches ver tag u
        \<and> (\<forall>h \<in> set pre. \<not> link_matches ver tag h)"
  then obtain pre post where "links = map Some pre @ Some u # post" "link_matches ver tag u"
    "\<forall>h \<in> set pre. \<not> link_matches ver tag h" by blast
  then show "scan_links ver tag links = Selected u"
    by (simp add: scan_links_skip)
qed

text \<open>The scan on a listing with two matching links and an anchor without href between them.\<close>

lemma example_link_matches: "link_matches ''4.1'' ''linux'' ''blender-4.1.0-linux64.zip''"
  by (simp add: link_matches_def endswith_def suffix_to_prefix)
lemma index_link_no_match: "\<not> link_matches ''4.1'' ''linux'' ''index.html''"
  by (simp add: link_matches_def endswith_def suffix_to_prefix)

theorem scan_links_first_match_witness:
  "scan_links ''4.1'' ''linux''
     [Some ''index.html'', Some ''blender-4.1.0-linux64.zip'', None,
      Some ''blender-4.1.1-linux64.zip''] = Selected ''blender-4.1.0-linux64.zip''"
proof -
  have "\<exists>pre post. [Some ''index.html'', Some ''blender-4.1.0-linux64.zip'', None,
      Some ''blender-4.1.1-linux64.zip''] = map Some pre @ Some ''blender-4.1.0-linux64.zip'' # post
      \<and> link_matches ''4.1'' ''linux'' ''blender-4.1.0-linux64.zip''
      \<and> (\<forall>h \<in> set pre. \<not> link_matches ''4.1'' ''linux'' h)"
    by (rule exI [of _ "[''index.html'']"], rule exI [of _ "[None, Some ''blender-4.1.1-linux64.zip'']"])
       (simp add: example_link_matches index_link_no_match)
  then show ?thesis
    using scan_links_first_match [of "''4.1''" "''linux''" _ "''blender-4.1.0-linux64.zip''"]
    by blast
qed

text \<open>
  An anchor without href before the first matching anchor: a matching link is present,
  and the scan raises instead of selecting it.
\<close>

theorem scan_links_missing_href_counterexample:
  "link_matches ''4.1'' ''linux'' ''blender-4.1.0-linux64.zip'' \<and>
   scan_links ''4.1'' ''linux'' [None, Some ''blender-4.1.0-linux64.zip''] = Raised TypeError"
  by (simp add: link_matches_def endswith_def suffix_to_prefix)

lemma scan_links_raised_iff:
  "scan_links ver tag links = Raised e \<longleftrightarrow>
     e = TypeError \<and> (\<exists>pre post. links = map Some pre @ None # post
        \<and> (\<forall>h \<in> set pre. \<not> link_matches ver tag h))"
proof
  assume "scan_links ver tag links = Raised e"
  then show "e = TypeError \<and> (\<exists>pre post. links = map Some pre @ None # post
        \<and> (\<forall>h \<in> set pre. \<not> link_matches ver tag h))"
    by (rule scan_links_raised_split)
next
  assume "e = TypeError \<and> (\<exists>pre post. links = map Some pre @ None # post
        \<and> (\<forall>h \<in> set pre. \<not> link_matches ver tag h))"
  then obtain pre post where "e = TypeError" "links = map Some pre @ None # post"
    "\<forall>h \<in> set pre. \<not> link_matches ver tag h" by blast
  then show "scan_links ver tag links = Raised e"
    by (simp add: scan_links_skip)
qed

text \<open>
  C9 (amended). The scan raises exactly when an anchor without href is reached, that is,
  when no anchor before it matches; the exception is \<open>TypeError\<close>, and what follows
  the anchor plays no part. Nobody handles the exception: the run ends with it. An
  anchor without href behind the first matching anchor is never reached.
\<close>

theorem scan_links_raises:
  "(scan_links ver tag links = Raised e \<longleftrightarrow>
      e = TypeError \<and> (\<exists>pre post. links = map Some pre @ None # post
         \<and> (\<forall>h \<in> set pre. \<not> link_matches ver tag h)))
   \<and> (get_listing ev (arg_url a) = Inr links
        \<and> scan_links (arg_version a) tag links = Raised e \<longrightarrow>
        fst (fetch_and_install ev a tag base_dir st) = Uncaught e)"
proof (intro conjI impI)
  show "scan_links ver tag links = Raised e \<longleftrightarrow>
      e = TypeError \<and> (\<exists>pre post. links = map Some pre @ None # post
         \<and> (\<forall>h \<in> set pre. \<not> link_matches ver tag h))"
    by (rule scan_links_raised_iff)
next
  assume "get_listing ev (arg_url a) = Inr links
        \<and> scan_links (arg_version a) tag links = Raised e"
  then show "fst (fetch_and_install ev a tag base_dir st) = Uncaught e"
    by (simp add: fetch_and_install_def Let_def)
qed

theorem scan_links_raises_witness:
  "scan_links ''4.1'' ''linux'' [Some ''index.html'', None, Some ''blender-4.1.0-linux64.zip'']
     = Raised TypeError"
proof -
  have "TypeError = TypeError \<and> (\<exists>pre post. [Some ''index.html'', None, Some ''blender-4.1.0-linux64.zip'']
      = map Some pre @ None # post \<and> (\<forall>h \<in> set pre. \<not> link_matches ''4.1'' ''linux'' h))"
    by (rule conjI, rule refl, rule exI [of _ "[''index.html'']"],
        rule exI [of _ "[Some ''blender-4.1.0-linux64.zip'']"]) (simp add: index_link_no_match)
  then show ?thesis
    by (rule iffD2 [OF conjunct1 [OF scan_links_raises]])
qed

text \<open>An anchor without href behind a matching anchor: the scan returns the match.\<close>

theorem scan_links_href_after_match_counterexample:
  "scan_links ''4.1'' ''linux'' [Some ''blender-4.1.0-linux64.zip'', None]
     = Selected ''blender-4.1.0-linux64.zip''"
  by (simp add: link_matches_def endswith_def suffix_to_prefix)

section \<open>Basic facts about the file system\<close>

lemma map_of_drop_entry:
  "map_of (drop_entry p fs) q = (if q = p then None else map_of fs q)"
  by (induction fs) (auto simp: drop_entry_def)

lemma lookup_drop_entry:
  "p \<noteq> [] \<Longrightarrow> lookup (drop_entry p fs) q = (if q = p then None else lookup fs q)"
  by (simp add: lookup_def map_of_drop_entry)

lemma lookup_put:
  "p \<noteq> [] \<Longrightarrow> lookup (put p n fs) q = (if q = p then Some n else lookup fs q)"
  by (simp add: lookup_def put_def map_of_drop_entry)

lemma open_w_nonempty: "open_w den fs p = Inr fs1 \<Longrightarrow> p \<noteq> []"
  by (auto simp: open_w_def lookup_def split: if_splits)

lemma open_w_result:
  "open_w den fs p = Inr fs1 \<Longrightarrow> fs1 = put p (File []) fs"
  by (auto simp: open_w_def split: if_splits option.splits node.splits)



lemma write_data_result:
  "write_data den fs p d = Inr fs1 \<Longrightarrow> \<exists>c. lookup fs p = Some (File c) \<and> fs1 = put p (File (c @ d)) fs"
  by (auto simp: write_data_def split: if_splits option.splits node.splits)


lemma write_file_lookup:
  assumes "write_file den fs p d = (None, fs1)"
  shows "p \<noteq> []" and "lookup fs1 q = (if q = p then Some (File d) else lookup fs q)"
proof -
  from assms obtain f0 where o: "open_w den fs p = Inr f0" and w: "write_data den f0 p d = Inr fs1"
    by (auto simp: write_file_def split: sum.splits)
  from o show ne: "p \<noteq> []" by (rule open_w_nonempty)
  from o have f0: "f0 = put p (File []) fs" by (rule open_w_result)
  from write_data_result [OF w] obtain c where
    c: "lookup f0 p = Some (File c)" and fs1: "fs1 = put p (File (c @ d)) f0" by blast
  from c f0 ne have "c = []" by (simp add: lookup_put)
  with fs1 f0 ne show "lookup fs1 q = (if q = p then Some (File d) else lookup fs q)"
    by (simp add: lookup_put)
qed

lemma os_remove_lookup:
  assumes "os_remove den fs p = Inr fs1"
  shows "lookup fs1 q = (if q = p then None else lookup fs q)"
proof -
  from assms obtain c where "lookup fs p = Some (File c)" and fs1: "fs1 = drop_entry p fs"
    by (auto simp: os_remove_def split: if_splits option.splits node.splits)
  then have "p \<noteq> []" by (auto simp: lookup_def)
  with fs1 show ?thesis by (simp add: lookup_drop_entry)
qed

section \<open>Paths\<close>

lemma split_sep_append_sep:
  "split_sep acc (s @ CHR ''/'' # t) = split_sep acc s @ split_sep [] t"
  by (induction s arbitrary: acc) simp_all

lemma split_sep_no_sep:
  "CHR ''/'' \<notin> set s \<Longrightarrow> split_sep acc s = [rev acc @ s]"
  by (induction s arbitrary: acc) auto


lemma resolve_empty: "resolve [] = []"
  by (simp add: resolve_def)

lemma resolve_append_sep: "resolve (s @ CHR ''/'' # t) = resolve s @ resolve t"
  by (simp add: resolve_def split_sep_append_sep)

lemma resolve_name: "CHR ''/'' \<notin> set s \<Longrightarrow> s \<noteq> [] \<Longrightarrow> resolve s = [s]"
  by (simp add: resolve_def split_sep_no_sep)

lemma resolve_join:
  assumes "\<not> prefix ''/'' b"
  shows "resolve (join a b) = resolve a @ resolve b"
proof (cases "a = []")
  case True
  with assms show ?thesis by (simp add: join_def resolve_empty)
next
  case False
  show ?thesis
  proof (cases "suffix ''/'' a")
    case True
    then obtain a' where a: "a = a' @ ''/''" by (auto simp: suffix_def)
    have "resolve (a' @ CHR ''/'' # b) = resolve a' @ resolve b" by (rule resolve_append_sep)
    moreover have "resolve (a' @ CHR ''/'' # []) = resolve a' @ resolve []"
      by (rule resolve_append_sep)
    ultimately show ?thesis using assms a True by (simp add: join_def resolve_empty)
  next
    case False
    with \<open>a \<noteq> []\<close> assms show ?thesis by (simp add: join_def resolve_append_sep)
  qed
qed


lemma resolve_version_file:
  "resolve (version_file base_dir ver) = resolve (latest_dir base_dir ver) @ [''.blender_build'']"
  by (simp add: version_file_def resolve_join resolve_name)


lemma resolve_latest_dir:
  "resolve (latest_dir base_dir ver) = resolve base_dir @ resolve (''Blender '' @ ver)"
  by (simp add: latest_dir_def resolve_join)

lemmas demo_defs = demo_env_def demo_args_def demo_state_def
lemmas fs_defs = lookup_def exists_path_def put_def drop_entry_def open_w_def write_data_def
  write_file_def os_remove_def read_file_def resolve_def join_def basename_def
  suffix_to_prefix

section \<open>The write-access probe\<close>





section \<open>Evaluating the sample run\<close>

lemmas run_defs = install_build_def download_stage_def fetch_archive_def extract_install_def
  wipe_def rmtree_def makedirs_def move_def graft_def subtree_def listdir_def blocked_def
  is_valid_zip_def download_path_def latest_dir_def version_file_def say_def handle_match_def
  fetch_and_install_def main_def base_dir_of_def probe_def probe_path_def resolve_os_def lower_def lower_char_def
  AVAILABLE_OS_CONFIGS_def link_matches_def endswith_def Let_def

lemma demo_install:
  "install_build demo_env ''/opt'' ''4.1'' ''https://b.org/blender-4.1.0-linux64.zip'' demo_state
   = (Exit 0, demo_installed)"
  by (simp add: demo_installed_def run_defs demo_defs fs_defs)


lemma demo_cache:
  "exists_path (files demo_installed)
     (download_path demo_env ''https://b.org/blender-4.1.0-linux64.zip'')
   \<and> is_valid_zip demo_env (files demo_installed)
     (download_path demo_env ''https://b.org/blender-4.1.0-linux64.zip'')"
  by (simp add: demo_installed_def demo_env_def download_path_def is_valid_zip_def fs_defs)

section \<open>Change detection\<close>




section \<open>The download stage\<close>

lemma fetch_archive_requests:
  "requests (snd (fetch_archive ev file_url st)) = requests st @ [file_url]"
  by (simp add: fetch_archive_def say_def Let_def split: sum.splits prod.splits option.splits)

lemma fetch_archive_not_skipped: "fetch_archive ev file_url st \<noteq> (r, st\<lparr>files := f\<rparr>)"
proof
  assume "fetch_archive ev file_url st = (r, st\<lparr>files := f\<rparr>)"
  then have "requests (snd (fetch_archive ev file_url st)) = requests st" by simp
  then show False by (simp add: fetch_archive_requests)
qed

text \<open>
  C4. The download stage returns at once, with the state untouched, exactly when a file
  exists at the download path and opens as a zip archive. Otherwise, whatever exists at
  that path is removed first (a refused removal ends the run), and the archive is then
  requested on a file system where the path is free; \<open>fetch_archive\<close> always sends
  the GET request for the link.
\<close>

theorem download_skipped_iff_valid_cache:
  "(download_stage ev file_url st = (None, st) \<longleftrightarrow>
      exists_path (files st) (download_path ev file_url)
      \<and> is_valid_zip ev (files st) (download_path ev file_url))
   \<and> (\<not> exists_path (files st) (download_path ev file_url) \<longrightarrow>
        download_stage ev file_url st = fetch_archive ev file_url st)
   \<and> (exists_path (files st) (download_path ev file_url)
        \<and> \<not> is_valid_zip ev (files st) (download_path ev file_url) \<longrightarrow>
        (\<forall>f1. os_remove (denied ev) (files st) (download_path ev file_url) = Inr f1 \<longrightarrow>
           \<not> exists_path f1 (download_path ev file_url)
           \<and> download_stage ev file_url st = fetch_archive ev file_url (st\<lparr>files := f1\<rparr>))
        \<and> (\<forall>e. os_remove (denied ev) (files st) (download_path ev file_url) = Inl e \<longrightarrow>
           download_stage ev file_url st = (Some e, st)))
   \<and> requests (snd (fetch_archive ev file_url st)) = requests st @ [file_url]"
proof (intro conjI impI allI iffI)
  assume d: "download_stage ev file_url st = (None, st)"
  show "exists_path (files st) (download_path ev file_url)"
  proof (rule ccontr)
    assume "\<not> exists_path (files st) (download_path ev file_url)"
    with d have "fetch_archive ev file_url st = (None, st\<lparr>files := files st\<rparr>)"
      by (simp add: download_stage_def)
    then show False by (simp only: fetch_archive_not_skipped)
  qed
  show "is_valid_zip ev (files st) (download_path ev file_url)"
  proof (rule ccontr)
    assume nv: "\<not> is_valid_zip ev (files st) (download_path ev file_url)"
    show False
    proof (cases "exists_path (files st) (download_path ev file_url)")
      case False
      with d have "fetch_archive ev file_url st = (None, st\<lparr>files := files st\<rparr>)"
        by (simp add: download_stage_def)
      then show False by (simp only: fetch_archive_not_skipped)
    next
      case True
      show False
      proof (cases "os_remove (denied ev) (files st) (download_path ev file_url)")
        case (Inl e)
        with d nv True show False by (simp add: download_stage_def)
      next
        case (Inr f1)
        with d nv True have "fetch_archive ev file_url (st\<lparr>files := f1\<rparr>) = (None, st)"
          by (simp add: download_stage_def)
        then have "requests (snd (fetch_archive ev file_url (st\<lparr>files := f1\<rparr>))) = requests st"
          by simp
        then show False by (simp add: fetch_archive_requests)
      qed
    qed
  qed
next
  assume "exists_path (files st) (download_path ev file_url)
      \<and> is_valid_zip ev (files st) (download_path ev file_url)"
  then show "download_stage ev file_url st = (None, st)"
    by (simp add: download_stage_def)
next
  assume "\<not> exists_path (files st) (download_path ev file_url)"
  then show "download_stage ev file_url st = fetch_archive ev file_url st"
    by (simp add: download_stage_def)
next
  fix f1
  assume a: "exists_path (files st) (download_path ev file_url)
        \<and> \<not> is_valid_zip ev (files st) (download_path ev file_url)"
    and r: "os_remove (denied ev) (files st) (download_path ev file_url) = Inr f1"
  from os_remove_lookup [OF r] show "\<not> exists_path f1 (download_path ev file_url)"
    by (simp add: exists_path_def)
  from a r show "download_stage ev file_url st = fetch_archive ev file_url (st\<lparr>files := f1\<rparr>)"
    by (simp add: download_stage_def)
next
  fix e
  assume a: "exists_path (files st) (download_path ev file_url)
        \<and> \<not> is_valid_zip ev (files st) (download_path ev file_url)"
    and r: "os_remove (denied ev) (files st) (download_path ev file_url) = Inl e"
  then show "download_stage ev file_url st = (Some e, st)"
    by (simp add: download_stage_def)
next
  show "requests (snd (fetch_archive ev file_url st)) = requests st @ [file_url]"
    by (rule fetch_archive_requests)
qed

theorem download_skipped_iff_valid_cache_witness:
  "download_stage demo_env ''https://b.org/blender-4.1.0-linux64.zip'' demo_installed
     = (None, demo_installed)"
proof -
  have "download_stage demo_env ''https://b.org/blender-4.1.0-linux64.zip'' demo_installed
          = (None, demo_installed) \<longleftrightarrow>
        exists_path (files demo_installed)
          (download_path demo_env ''https://b.org/blender-4.1.0-linux64.zip'')
        \<and> is_valid_zip demo_env (files demo_installed)
          (download_path demo_env ''https://b.org/blender-4.1.0-linux64.zip'')"
    by (rule conjunct1 [OF download_skipped_iff_valid_cache])
  from iffD2 [OF this demo_cache] show ?thesis .
qed

section \<open>The marker\<close>

text \<open>
  C3. When \<open>install_build\<close> ends with exit code 0, the marker file
  \<open><base_dir>/Blender <version>/.blender_build\<close> holds exactly the matched link,
  whatever it held before. The write comes last: the download stage and the
  extract-and-install stage have both completed, and an exception in the
  extract-and-install stage ends the run in the state that stage left.
\<close>

theorem marker_written_on_success:
  "(install_build ev base_dir ver file_url st = (Exit 0, st') \<longrightarrow>
      lookup (files st') (resolve (version_file base_dir ver)) = Some (File file_url)
      \<and> (\<exists>st1 st2.
            download_stage ev file_url (say (FoundLatest file_url) st) = (None, st1)
            \<and> extract_install ev (resolve (latest_dir base_dir ver))
                  (download_path ev file_url) st1 = (None, st2)
            \<and> write_file (denied ev) (files st2) (resolve (version_file base_dir ver)) file_url
                  = (None, files st')))
   \<and> resolve (version_file base_dir ver)
        = resolve base_dir @ resolve (''Blender '' @ ver) @ [''.blender_build'']
   \<and> (download_stage ev file_url (say (FoundLatest file_url) st) = (None, st1)
        \<and> extract_install ev (resolve (latest_dir base_dir ver))
              (download_path ev file_url) st1 = (Some e, st2) \<longrightarrow>
        install_build ev base_dir ver file_url st = (Uncaught e, st2))"
proof (intro conjI impI)
  assume ib: "install_build ev base_dir ver file_url st = (Exit 0, st')"
  then obtain s1 s2 f3 where
    d: "download_stage ev file_url (say (FoundLatest file_url) st) = (None, s1)" and
    x: "extract_install ev (resolve (latest_dir base_dir ver)) (download_path ev file_url) s1
          = (None, s2)" and
    w: "write_file (denied ev) (files s2) (resolve (version_file base_dir ver)) file_url
          = (None, f3)" and
    st': "st' = say (Installed ver) (s2\<lparr>files := f3\<rparr>)"
    by (auto simp: install_build_def split: prod.splits option.splits)
  from st' have f: "files st' = f3" by (simp add: say_def)
  with write_file_lookup(2) [OF w]
  show "lookup (files st') (resolve (version_file base_dir ver)) = Some (File file_url)"
    by simp
  from d x w f show "\<exists>st1 st2.
            download_stage ev file_url (say (FoundLatest file_url) st) = (None, st1)
            \<and> extract_install ev (resolve (latest_dir base_dir ver))
                  (download_path ev file_url) st1 = (None, st2)
            \<and> write_file (denied ev) (files st2) (resolve (version_file base_dir ver)) file_url
                  = (None, files st')"
    by blast
next
  show "resolve (version_file base_dir ver)
        = resolve base_dir @ resolve (''Blender '' @ ver) @ [''.blender_build'']"
    by (simp only: resolve_version_file resolve_latest_dir append_assoc)
next
  assume "download_stage ev file_url (say (FoundLatest file_url) st) = (None, st1)
        \<and> extract_install ev (resolve (latest_dir base_dir ver))
              (download_path ev file_url) st1 = (Some e, st2)"
  then show "install_build ev base_dir ver file_url st = (Uncaught e, st2)"
    by (simp add: install_build_def)
qed
theorem marker_written_on_success_witness:
  "install_build demo_env ''/opt'' ''4.1'' ''https://b.org/blender-4.1.0-linux64.zip'' demo_state
     = (Exit 0, demo_installed)
   \<and> lookup (files demo_installed) (resolve (version_file ''/opt'' ''4.1''))
     = Some (File ''https://b.org/blender-4.1.0-linux64.zip'')"
proof -
  have "install_build demo_env ''/opt'' ''4.1'' ''https://b.org/blender-4.1.0-linux64.zip''
          demo_state = (Exit 0, demo_installed) \<longrightarrow>
        lookup (files demo_installed) (resolve (version_file ''/opt'' ''4.1''))
          = Some (File ''https://b.org/blender-4.1.0-linux64.zip'')
        \<and> (\<exists>st1 st2.
            download_stage demo_env ''https://b.org/blender-4.1.0-linux64.zip''
               (say (FoundLatest ''https://b.org/blender-4.1.0-linux64.zip'') demo_state)
               = (None, st1)
            \<and> extract_install demo_env (resolve (latest_dir ''/opt'' ''4.1''))
                  (download_path demo_env ''https://b.org/blender-4.1.0-linux64.zip'') st1
               = (None, st2)
            \<and> write_file (denied demo_env) (files st2) (resolve (version_file ''/opt'' ''4.1''))
                  ''https://b.org/blender-4.1.0-linux64.zip'' = (None, files demo_installed))"
    by (rule conjunct1 [OF marker_written_on_success])
  from mp [OF this demo_install] have
    "lookup (files demo_installed) (resolve (version_file ''/opt'' ''4.1''))
          = Some (File ''https://b.org/blender-4.1.0-linux64.zip'')"
    by (rule conjunct1)
  with demo_install show ?thesis by (rule conjI)
qed

section \<open>Exit codes\<close>




















section \<open>The no-update path\<close>










section \<open>Wiping the install directory\<close>

lemma map_of_filter_key:
  "map_of (filter (\<lambda>e. P (fst e)) fs) q = (if P q then map_of fs q else None)"
  by (induction fs) auto

lemma lookup_filter_key:
  "q \<noteq> [] \<Longrightarrow> lookup (filter (\<lambda>e. P (fst e)) fs) q = (if P q then lookup fs q else None)"
  by (simp add: lookup_def map_of_filter_key)

lemma not_blocked:
  assumes "\<forall>k. prefix p k \<longrightarrow> \<not> den (OpRemove k)" and "prefix p q"
  shows "\<not> blocked den fs q"
proof
  assume "blocked den fs q"
  then obtain e where "prefix q (fst e)" "den (OpRemove (fst e))"
    by (auto simp: blocked_def list_ex_iff)
  moreover from this(1) assms(2) have "prefix p (fst e)" by (rule prefix_order.trans [rotated])
  ultimately show False using assms(1) by blast
qed

lemma rmtree_clean:
  assumes "lookup fs p = Some Dir" and "\<forall>k. prefix p k \<longrightarrow> \<not> den (OpRemove k)"
  shows "rmtree den p fs = (filter (\<lambda>e. \<not> prefix p (fst e)) fs, [])"
proof -
  have a: "filter (\<lambda>e. \<not> prefix p (fst e) \<or> blocked den fs (fst e)) fs
      = filter (\<lambda>e. \<not> prefix p (fst e)) fs"
    by (rule filter_cong) (auto dest: not_blocked [OF assms(2)])
  have b: "filter (\<lambda>e. prefix p (fst e) \<and> blocked den fs (fst e)) fs = []"
    by (auto simp: filter_empty_conv dest: not_blocked [OF assms(2)])
  from assms(1) a b show ?thesis by (simp add: rmtree_def)
qed

lemma rmtree_keeps_files:
  assumes "lookup (fst (rmtree den p fs)) q = Some (File c)"
  shows "lookup fs q = Some (File c)"
proof (cases "lookup fs p = Some Dir")
  case False
  then have "fst (rmtree den p fs) = fs"
    by (auto simp: rmtree_def split: option.splits node.splits)
  with assms show ?thesis by simp
next
  case True
  then have "fst (rmtree den p fs)
      = filter (\<lambda>e. \<not> prefix p (fst e) \<or> blocked den fs (fst e)) fs"
    by (simp add: rmtree_def)
  with assms have f: "lookup (filter (\<lambda>e. \<not> prefix p (fst e) \<or> blocked den fs (fst e)) fs) q
      = Some (File c)" by simp
  then have "q \<noteq> []" by (auto simp: lookup_def)
  from lookup_filter_key [OF this, where P = "\<lambda>k. \<not> prefix p k \<or> blocked den fs k" and fs = fs] f
  show ?thesis by (simp split: if_splits)
qed

lemma mkdirs_lookup:
  "lookup (snd (mkdirs den pre cs fs)) q = lookup fs q
   \<or> (lookup fs q = None \<and> lookup (snd (mkdirs den pre cs fs)) q = Some Dir
       \<and> prefix q (pre @ cs))"
proof (induction cs arbitrary: pre fs)
  case Nil
  show ?case by simp
next
  case (Cons c cs)
  let ?d = "pre @ [c]"
  show ?case
  proof (cases "lookup fs ?d")
    case (Some n)
    show ?thesis
    proof (cases n)
      case (File x)
      with Some show ?thesis by simp
    next
      case Dir
      with Some have "mkdirs den pre (c # cs) fs = mkdirs den ?d cs fs" by simp
      with Cons.IH [of ?d fs] show ?thesis by auto
    qed
  next
    case None
    show ?thesis
    proof (cases "den (OpMkdir ?d)")
      case True
      with None show ?thesis by simp
    next
      case False
      with None have m: "mkdirs den pre (c # cs) fs = mkdirs den ?d cs (put ?d Dir fs)" by simp
      have l: "lookup (put ?d Dir fs) q = (if q = ?d then Some Dir else lookup fs q)"
        by (rule lookup_put) simp
      show ?thesis
      proof (cases "q = ?d")
        case True
        with Cons.IH [of ?d "put ?d Dir fs"] l m None show ?thesis by auto
      next
        case False
        with Cons.IH [of ?d "put ?d Dir fs"] l m show ?thesis by auto
      qed
    qed
  qed
qed

lemma makedirs_keeps_files:
  assumes "lookup (snd (makedirs den p fs)) q = Some (File c)"
  shows "lookup fs q = Some (File c)"
  using mkdirs_lookup [of den "[]" p fs q] assms by (auto simp: makedirs_def)

lemma makedirs_below:
  assumes "strict_prefix p q"
  shows "lookup (snd (makedirs den p fs)) q = lookup fs q"
proof -
  from assms have "\<not> prefix q p" by (auto simp: strict_prefix_def)
  with mkdirs_lookup [of den "[]" p fs q] show ?thesis by (auto simp: makedirs_def)
qed

lemma wipe_files:
  "files (wipe ev latest st)
     = snd (makedirs (denied ev) latest
         (if exists_path (files st) latest then fst (rmtree (denied ev) latest (files st))
          else files st))"
  by (simp add: wipe_def Let_def say_def split: prod.splits option.splits)

lemma wipe_keeps_files:
  assumes "lookup (files (wipe ev latest st)) q = Some (File c)"
  shows "lookup (files st) q = Some (File c)"
proof -
  from assms have "lookup (if exists_path (files st) latest
      then fst (rmtree (denied ev) latest (files st)) else files st) q = Some (File c)"
    unfolding wipe_files by (rule makedirs_keeps_files)
  then show ?thesis by (auto split: if_splits dest: rmtree_keeps_files)
qed

lemma wipe_clears:
  assumes "lookup (files st) latest = Some Dir"
    and "\<forall>k. prefix latest k \<longrightarrow> \<not> denied ev (OpRemove k)"
    and "strict_prefix latest q"
  shows "lookup (files (wipe ev latest st)) q = None"
proof -
  from assms(1) have ex: "exists_path (files st) latest" by (simp add: exists_path_def)
  from assms(3) have q: "q \<noteq> []" "prefix latest q" by (auto simp: strict_prefix_def)
  from rmtree_clean [OF assms(1,2)] have
    "fst (rmtree (denied ev) latest (files st)) = filter (\<lambda>e. \<not> prefix latest (fst e)) (files st)"
    by simp
  with q lookup_filter_key [OF q(1), where P = "\<lambda>k. \<not> prefix latest k" and fs = "files st"]
  have "lookup (fst (rmtree (denied ev) latest (files st))) q = None"
    by simp
  with ex makedirs_below [OF assms(3)] show ?thesis by (simp add: wipe_files)
qed

section \<open>A download that does not extract\<close>

lemma extract_install_bad_archive:
  assumes "\<forall>c. lookup (files st) dp = Some (File c) \<longrightarrow>
             \<not> zip_opens ev c \<or> (\<exists>e. zip_extractall ev c = Inl e)"
  shows "\<exists>e. extract_install ev latest dp st = (Some e, wipe ev latest (say Extracting st))"
proof (cases "read_file (denied ev) (files (wipe ev latest (say Extracting st))) dp")
  case (Inl e)
  then show ?thesis by (simp add: extract_install_def Let_def)
next
  case (Inr c)
  then have "lookup (files (wipe ev latest (say Extracting st))) dp = Some (File c)"
    by (auto simp: read_file_def split: if_splits option.splits node.splits)
  then have "lookup (files (say Extracting st)) dp = Some (File c)" by (rule wipe_keeps_files)
  then have "lookup (files st) dp = Some (File c)" by (simp add: say_def)
  with assms have "\<not> zip_opens ev c \<or> (\<exists>e. zip_extractall ev c = Inl e)" by blast
  with Inr show ?thesis by (auto simp: extract_install_def Let_def)
qed

text \<open>
  C8. The download stage does not check what it has written, and the old install
  directory is wiped before the archive is opened. So when the download stage has
  completed, the install directory exists, the system refuses no removal below it, and
  the file at the download path does not open as a zip archive or does not extract,
  then the run ends with an uncaught exception, and nothing is left below the install
  directory: the old build and its marker file are gone and no new build is installed.
\<close>

theorem failed_extraction_destroys_install:
  "download_stage ev file_url (say (FoundLatest file_url) st) = (None, st1)
   \<and> lookup (files st1) (resolve (latest_dir base_dir ver)) = Some Dir
   \<and> (\<forall>k. prefix (resolve (latest_dir base_dir ver)) k \<longrightarrow> \<not> denied ev (OpRemove k))
   \<and> (\<forall>c. lookup (files st1) (download_path ev file_url) = Some (File c) \<longrightarrow>
          \<not> zip_opens ev c \<or> (\<exists>e. zip_extractall ev c = Inl e))
   \<longrightarrow>
     (\<exists>e. fst (install_build ev base_dir ver file_url st) = Uncaught e)
     \<and> (\<forall>q. strict_prefix (resolve (latest_dir base_dir ver)) q \<longrightarrow>
           lookup (files (snd (install_build ev base_dir ver file_url st))) q = None)
     \<and> lookup (files (snd (install_build ev base_dir ver file_url st)))
         (resolve (version_file base_dir ver)) = None"
proof
  let ?L = "resolve (latest_dir base_dir ver)"
  assume h: "download_stage ev file_url (say (FoundLatest file_url) st) = (None, st1)
   \<and> lookup (files st1) ?L = Some Dir
   \<and> (\<forall>k. prefix ?L k \<longrightarrow> \<not> denied ev (OpRemove k))
   \<and> (\<forall>c. lookup (files st1) (download_path ev file_url) = Some (File c) \<longrightarrow>
          \<not> zip_opens ev c \<or> (\<exists>e. zip_extractall ev c = Inl e))"
  then obtain e where x: "extract_install ev ?L (download_path ev file_url) st1
      = (Some e, wipe ev ?L (say Extracting st1))"
    using extract_install_bad_archive [of st1 "download_path ev file_url" ev ?L] by blast
  with h have ib: "install_build ev base_dir ver file_url st
      = (Uncaught e, wipe ev ?L (say Extracting st1))"
    by (simp add: install_build_def)
  from h have d: "lookup (files (say Extracting st1)) ?L = Some Dir" by (simp add: say_def)
  have clear: "\<forall>q. strict_prefix ?L q \<longrightarrow> lookup (files (wipe ev ?L (say Extracting st1))) q = None"
    using wipe_clears [OF d] h by blast
  have "strict_prefix ?L (resolve (version_file base_dir ver))"
    by (simp add: resolve_version_file strict_prefix_def)
  with clear have "lookup (files (wipe ev ?L (say Extracting st1)))
      (resolve (version_file base_dir ver)) = None" by blast
  with ib clear show "(\<exists>e. fst (install_build ev base_dir ver file_url st) = Uncaught e)
     \<and> (\<forall>q. strict_prefix ?L q \<longrightarrow>
           lookup (files (snd (install_build ev base_dir ver file_url st))) q = None)
     \<and> lookup (files (snd (install_build ev base_dir ver file_url st)))
         (resolve (version_file base_dir ver)) = None"
    by simp
qed

lemma demo_broken_premises:
  "download_stage (demo_env\<lparr>zip_opens := (=) ''ZIP''\<rparr>) ''https://b.org/blender-4.1.0-linux64.zip''
      (say (FoundLatest ''https://b.org/blender-4.1.0-linux64.zip'') demo_stale)
     = (None, snd (download_stage (demo_env\<lparr>zip_opens := (=) ''ZIP''\<rparr>)
          ''https://b.org/blender-4.1.0-linux64.zip''
          (say (FoundLatest ''https://b.org/blender-4.1.0-linux64.zip'') demo_stale)))
   \<and> lookup (files (snd (download_stage (demo_env\<lparr>zip_opens := (=) ''ZIP''\<rparr>)
          ''https://b.org/blender-4.1.0-linux64.zip''
          (say (FoundLatest ''https://b.org/blender-4.1.0-linux64.zip'') demo_stale))))
        (resolve (latest_dir ''/opt'' ''4.1'')) = Some Dir
   \<and> (\<forall>k. prefix (resolve (latest_dir ''/opt'' ''4.1'')) k \<longrightarrow>
         \<not> denied (demo_env\<lparr>zip_opens := (=) ''ZIP''\<rparr>) (OpRemove k))
   \<and> (\<forall>c. lookup (files (snd (download_stage (demo_env\<lparr>zip_opens := (=) ''ZIP''\<rparr>)
          ''https://b.org/blender-4.1.0-linux64.zip''
          (say (FoundLatest ''https://b.org/blender-4.1.0-linux64.zip'') demo_stale))))
          (download_path (demo_env\<lparr>zip_opens := (=) ''ZIP''\<rparr>)
             ''https://b.org/blender-4.1.0-linux64.zip'') = Some (File c) \<longrightarrow>
          \<not> zip_opens (demo_env\<lparr>zip_opens := (=) ''ZIP''\<rparr>) c
          \<or> (\<exists>e. zip_extractall (demo_env\<lparr>zip_opens := (=) ''ZIP''\<rparr>) c = Inl e))"
  by (simp add: demo_stale_def run_defs demo_defs fs_defs)

theorem failed_extraction_destroys_install_witness:
  "lookup (files demo_stale) (resolve (version_file ''/opt'' ''4.1''))
     = Some (File ''https://b.org/blender-4.1.0-linux64-old.zip'')
   \<and> lookup (files (snd (install_build (demo_env\<lparr>zip_opens := (=) ''ZIP''\<rparr>) ''/opt'' ''4.1''
                          ''https://b.org/blender-4.1.0-linux64.zip'' demo_stale)))
       (resolve (version_file ''/opt'' ''4.1'')) = None"
proof -
  have "lookup (files demo_stale) (resolve (version_file ''/opt'' ''4.1''))
     = Some (File ''https://b.org/blender-4.1.0-linux64-old.zip'')"
    by (simp add: demo_stale_def version_file_def latest_dir_def fs_defs)
  moreover have "lookup (files (snd (install_build (demo_env\<lparr>zip_opens := (=) ''ZIP''\<rparr>) ''/opt'' ''4.1''
                          ''https://b.org/blender-4.1.0-linux64.zip'' demo_stale)))
       (resolve (version_file ''/opt'' ''4.1'')) = None"
    by (rule conjunct2 [OF conjunct2
          [OF mp [OF failed_extraction_destroys_install demo_broken_premises]]])
  ultimately show ?thesis by (rule conjI)
qed

section \<open>Installing an archive with a single top-level folder\<close>

lemma wf_fs_ancestor:
  assumes "wf_fs fs"
  shows "lookup fs (p @ r) \<noteq> None \<Longrightarrow> r \<noteq> [] \<Longrightarrow> lookup fs p = Some Dir"
proof (induction r rule: rev_induct)
  case Nil
  then show ?case by simp
next
  case (snoc x r)
  from snoc.prems(1) obtain n where "map_of fs (p @ r @ [x]) = Some n"
    by (auto simp: lookup_def)
  then have "(p @ r @ [x], n) \<in> set fs" by (rule map_of_SomeD)
  with assms have "lookup fs (butlast (p @ r @ [x])) = Some Dir"
    by (auto simp: wf_fs_def list_all_iff)
  then have d: "lookup fs (p @ r) = Some Dir" by (simp add: butlast_append)
  show ?case
  proof (cases "r = []")
    case True
    with d show ?thesis by simp
  next
    case False
    with d snoc.IH show ?thesis by simp
  qed
qed

lemma wf_fs_nothing_below:
  assumes "wf_fs fs" and "lookup fs p = None" and "e \<in> set fs"
  shows "\<not> strict_prefix p (fst e)"
proof
  assume "strict_prefix p (fst e)"
  then obtain r where r: "fst e = p @ r" "r \<noteq> []" by (auto simp: strict_prefix_def prefix_def)
  from assms(3) have "(fst e, snd e) \<in> set fs" by simp
  then have "map_of fs (fst e) \<noteq> None" by (metis weak_map_of_SomeI option.distinct(1))
  with r have "lookup fs (p @ r) \<noteq> None" by (simp add: lookup_def)
  from wf_fs_ancestor [OF assms(1) this r(2)] assms(2) show False by simp
qed

lemma set_put: "set (put p n fs) \<subseteq> insert (p, n) (set fs)"
  by (auto simp: put_def drop_entry_def)

lemma mkdirs_entries:
  "e \<in> set (snd (mkdirs den pre cs fs)) \<Longrightarrow> e \<in> set fs \<or> prefix (fst e) (pre @ cs)"
proof (induction cs arbitrary: pre fs)
  case Nil
  then show ?case by simp
next
  case (Cons c cs)
  let ?d = "pre @ [c]"
  show ?case
  proof (cases "lookup fs ?d")
    case (Some n)
    show ?thesis
    proof (cases n)
      case (File x)
      with Some Cons.prems show ?thesis by simp
    next
      case Dir
      with Some Cons.prems have "e \<in> set (snd (mkdirs den ?d cs fs))" by simp
      from Cons.IH [OF this] show ?thesis by simp
    qed
  next
    case None
    show ?thesis
    proof (cases "den (OpMkdir ?d)")
      case True
      with None Cons.prems show ?thesis by simp
    next
      case False
      with None Cons.prems have "e \<in> set (snd (mkdirs den ?d cs (put ?d Dir fs)))" by simp
      from Cons.IH [OF this] have "e \<in> set (put ?d Dir fs) \<or> prefix (fst e) (pre @ c # cs)"
        by simp
      with set_put [of ?d Dir fs] show ?thesis by auto
    qed
  qed
qed

lemma mkdirs_success:
  assumes "\<forall>k. \<not> den (OpMkdir k)"
  shows "\<forall>q x. prefix q (pre @ cs) \<longrightarrow> lookup fs q \<noteq> Some (File x) \<Longrightarrow>
         lookup fs pre = Some Dir \<Longrightarrow>
         fst (mkdirs den pre cs fs) = None
         \<and> lookup (snd (mkdirs den pre cs fs)) (pre @ cs) = Some Dir"
proof (induction cs arbitrary: pre fs)
  case Nil
  then show ?case by simp
next
  case (Cons c cs)
  let ?d = "pre @ [c]"
  have pd: "prefix ?d (pre @ c # cs)" by simp
  have sub: "\<And>q. prefix q (?d @ cs) \<Longrightarrow> prefix q (pre @ c # cs)" by simp
  show ?case
  proof (cases "lookup fs ?d")
    case (Some n)
    with Cons.prems(1) pd have d: "lookup fs ?d = Some Dir" by (cases n) auto
    then have m: "mkdirs den pre (c # cs) fs = mkdirs den ?d cs fs" by simp
    from Cons.prems(1) have "\<forall>q x. prefix q (?d @ cs) \<longrightarrow> lookup fs q \<noteq> Some (File x)"
      by simp
    from Cons.IH [OF this d] m show ?thesis by simp
  next
    case None
    with assms have m: "mkdirs den pre (c # cs) fs = mkdirs den ?d cs (put ?d Dir fs)" by simp
    have l: "\<And>q. lookup (put ?d Dir fs) q = (if q = ?d then Some Dir else lookup fs q)"
      by (rule lookup_put) simp
    from Cons.prems(1) l have
      "\<forall>q x. prefix q (?d @ cs) \<longrightarrow> lookup (put ?d Dir fs) q \<noteq> Some (File x)" by simp
    moreover from l have "lookup (put ?d Dir fs) ?d = Some Dir" by simp
    ultimately show ?thesis using Cons.IH [of ?d "put ?d Dir fs"] m by simp
  qed
qed

lemma move_into_dir:
  assumes "lookup fs dst = Some Dir" and "\<not> den (OpMove (dst @ [x]))"
    and "\<forall>e \<in> set fs. \<not> prefix (dst @ [x]) (fst e)"
    and "subtree scratch (folder @ [x]) = [([], n)]"
  shows "move den scratch (folder @ [x]) dst fs = (None, (dst @ [x], n) # fs)"
proof -
  have "map_of fs (dst @ [x]) = None"
  proof (rule ccontr)
    assume "map_of fs (dst @ [x]) \<noteq> None"
    then obtain m where "(dst @ [x], m) \<in> set fs" by (auto dest: map_of_SomeD)
    with assms(3) show False by force
  qed
  then have ne: "\<not> exists_path fs (dst @ [x])" by (simp add: exists_path_def lookup_def)
  from assms(3) have "filter (\<lambda>e. \<not> prefix (dst @ [x]) (fst e)) fs = fs"
    by (simp add: filter_id_conv)
  with assms(1,2,4) ne show ?thesis by (simp add: move_def graft_def)
qed

lemma wipe_fresh:
  assumes wf: "wf_fs (files st)"
    and den: "\<forall>op. \<not> denied ev op"
    and nofile: "\<forall>q x. prefix q latest \<longrightarrow> lookup (files st) q \<noteq> Some (File x)"
  shows "lookup (files (wipe ev latest st)) latest = Some Dir"
    and "\<forall>e \<in> set (files (wipe ev latest st)). \<not> strict_prefix latest (fst e)"
    and "\<not> prefix latest q \<Longrightarrow> lookup (files st) q \<noteq> None \<Longrightarrow>
           lookup (files (wipe ev latest st)) q = lookup (files st) q"
proof -
  let ?fs = "files st"
  let ?f1 = "if exists_path ?fs latest then fst (rmtree (denied ev) latest ?fs) else ?fs"
  have f1: "(\<forall>e \<in> set ?f1. \<not> strict_prefix latest (fst e))
      \<and> (\<forall>q. \<not> prefix latest q \<longrightarrow> lookup ?f1 q = lookup ?fs q)
      \<and> (\<forall>q x. prefix q latest \<longrightarrow> lookup ?f1 q \<noteq> Some (File x))"
  proof (cases "lookup ?fs latest")
    case None
    then have "?f1 = ?fs" by (simp add: exists_path_def)
    with wf None nofile show ?thesis by (auto dest: wf_fs_nothing_below)
  next
    case (Some n)
    with nofile have d: "lookup ?fs latest = Some Dir" by (cases n) auto
    with den have r: "fst (rmtree (denied ev) latest ?fs)
        = filter (\<lambda>e. \<not> prefix latest (fst e)) ?fs"
      by (simp add: rmtree_clean)
    from d have eq: "?f1 = filter (\<lambda>e. \<not> prefix latest (fst e)) ?fs"
      by (simp add: exists_path_def r)
    have a: "\<forall>e \<in> set (filter (\<lambda>e. \<not> prefix latest (fst e)) ?fs). \<not> strict_prefix latest (fst e)"
      by (auto simp: strict_prefix_def)
    have b: "\<And>q. lookup (filter (\<lambda>e. \<not> prefix latest (fst e)) ?fs) q
        = (if q = [] then Some Dir else if \<not> prefix latest q then lookup ?fs q else None)"
      using map_of_filter_key [where P = "\<lambda>k. \<not> prefix latest k" and fs = ?fs]
      by (simp add: lookup_def)
    have c: "\<forall>q. \<not> prefix latest q \<longrightarrow>
        lookup (filter (\<lambda>e. \<not> prefix latest (fst e)) ?fs) q = lookup ?fs q"
      by (simp add: b) (simp add: lookup_def)
    have e: "\<forall>q x. prefix q latest \<longrightarrow>
        lookup (filter (\<lambda>e. \<not> prefix latest (fst e)) ?fs) q \<noteq> Some (File x)"
      using nofile by (simp add: b)
    from a c e show ?thesis by (simp only: eq) 
  qed
  have w: "files (wipe ev latest st) = snd (makedirs (denied ev) latest ?f1)"
    by (rule wipe_files)
  from den have nm: "\<forall>k. \<not> denied ev (OpMkdir k)" by simp
  from f1 have "\<forall>q x. prefix q ([] @ latest) \<longrightarrow> lookup ?f1 q \<noteq> Some (File x)" by simp
  moreover have "lookup ?f1 [] = Some Dir" by (simp add: lookup_def)
  ultimately have "lookup (snd (mkdirs (denied ev) [] latest ?f1)) ([] @ latest) = Some Dir"
    using mkdirs_success [OF nm, of "[]" latest ?f1] by blast
  then show "lookup (files (wipe ev latest st)) latest = Some Dir"
    by (simp add: w makedirs_def)
  show "\<forall>e \<in> set (files (wipe ev latest st)). \<not> strict_prefix latest (fst e)"
  proof
    fix e assume "e \<in> set (files (wipe ev latest st))"
    then have "e \<in> set (snd (mkdirs (denied ev) [] latest ?f1))" by (simp add: w makedirs_def)
    from mkdirs_entries [OF this] have "e \<in> set ?f1 \<or> prefix (fst e) latest" by simp
    with f1 show "\<not> strict_prefix latest (fst e)" by (auto simp: strict_prefix_def)
  qed
  assume q: "\<not> prefix latest q" "lookup (files st) q \<noteq> None"
  with f1 have "lookup ?f1 q = lookup ?fs q" by blast
  moreover from this q(2) mkdirs_lookup [of "denied ev" "[]" latest ?f1 q]
  have "lookup (snd (mkdirs (denied ev) [] latest ?f1)) q = lookup ?f1 q" by auto
  ultimately show "lookup (files (wipe ev latest st)) q = lookup (files st) q"
    by (simp add: w makedirs_def)
qed

lemma scratch_shape:
  assumes "a \<noteq> b"
  shows "listdir [([folder], Dir), ([folder, a], File ca), ([folder, b], File cb)] [] = [folder]"
    and "lookup [([folder], Dir), ([folder, a], File ca), ([folder, b], File cb)] [folder] = Some Dir"
    and "listdir [([folder], Dir), ([folder, a], File ca), ([folder, b], File cb)] [folder] = [a, b]"
    and "subtree [([folder], Dir), ([folder, a], File ca), ([folder, b], File cb)] ([folder] @ [a])
           = [([], File ca)]"
    and "subtree [([folder], Dir), ([folder, a], File ca), ([folder, b], File cb)] ([folder] @ [b])
           = [([], File cb)]"
  using assms by (auto simp: listdir_def lookup_def subtree_def)

text \<open>
  C5. On a file system that is a tree and refuses nothing, with no file in the way of
  the install directory: when the archive at the download path extracts to exactly one
  top-level folder holding the files \<open>a\<close> and \<open>b\<close>, the extract-and-install
  stage completes, and the install directory then contains exactly \<open>a\<close> and
  \<open>b\<close>, as files with their contents, directly below it.
\<close>

theorem install_single_folder:
  "wf_fs (files st)
   \<and> (\<forall>op. \<not> denied ev op)
   \<and> (\<forall>q x. prefix q latest \<longrightarrow> lookup (files st) q \<noteq> Some (File x))
   \<and> lookup (files st) dp = Some (File content) \<and> \<not> prefix latest dp
   \<and> zip_opens ev content
   \<and> zip_extractall ev content
       = Inr [([folder], Dir), ([folder, a], File ca), ([folder, b], File cb)]
   \<and> a \<noteq> b
   \<longrightarrow>
     fst (extract_install ev latest dp st) = None
     \<and> set (listdir (files (snd (extract_install ev latest dp st))) latest) = {a, b}
     \<and> lookup (files (snd (extract_install ev latest dp st))) (latest @ [a]) = Some (File ca)
     \<and> lookup (files (snd (extract_install ev latest dp st))) (latest @ [b]) = Some (File cb)"
proof
  assume h: "wf_fs (files st)
   \<and> (\<forall>op. \<not> denied ev op)
   \<and> (\<forall>q x. prefix q latest \<longrightarrow> lookup (files st) q \<noteq> Some (File x))
   \<and> lookup (files st) dp = Some (File content) \<and> \<not> prefix latest dp
   \<and> zip_opens ev content
   \<and> zip_extractall ev content
       = Inr [([folder], Dir), ([folder, a], File ca), ([folder, b], File cb)]
   \<and> a \<noteq> b"
  let ?scratch = "[([folder], Dir), ([folder, a], File ca), ([folder, b], File cb)]"
  let ?st2 = "wipe ev latest (say Extracting st)"
  let ?f2 = "files ?st2"
  have fs: "files (say Extracting st) = files st" by (simp add: say_def)
  from h have wf: "wf_fs (files (say Extracting st))" and den: "\<forall>op. \<not> denied ev op"
    and nofile: "\<forall>q x. prefix q latest \<longrightarrow> lookup (files (say Extracting st)) q \<noteq> Some (File x)"
    and ab: "a \<noteq> b"
    by (simp_all add: fs)
  note w = wipe_fresh [OF wf den nofile]
  from w(1) have dir: "lookup ?f2 latest = Some Dir" .
  from w(2) have below: "\<forall>e \<in> set ?f2. \<not> strict_prefix latest (fst e)" .
  from h w(3) [of dp] have "lookup ?f2 dp = Some (File content)" by (simp add: fs)
  with den have rd: "read_file (denied ev) ?f2 dp = Inr content" by (simp add: read_file_def)
  have na: "\<forall>e \<in> set ?f2. \<not> prefix (latest @ [a]) (fst e)"
  proof
    fix e assume "e \<in> set ?f2"
    with below have "\<not> strict_prefix latest (fst e)" by blast
    then show "\<not> prefix (latest @ [a]) (fst e)"
      by (auto simp: strict_prefix_def prefix_def)
  qed
  from den have ma: "\<not> denied ev (OpMove (latest @ [a]))" by simp
  have m1: "move (denied ev) ?scratch ([folder] @ [a]) latest ?f2
      = (None, (latest @ [a], File ca) # ?f2)"
    using dir ma na scratch_shape(4) [OF ab, of folder ca cb]
    by (rule move_into_dir [where den = "denied ev"])
  let ?f3 = "(latest @ [a], File ca) # ?f2"
  from dir have dir3: "lookup ?f3 latest = Some Dir" by (auto simp: lookup_def)
  have nb: "\<forall>e \<in> set ?f3. \<not> prefix (latest @ [b]) (fst e)"
  proof
    fix e assume "e \<in> set ?f3"
    then consider "e = (latest @ [a], File ca)" | "e \<in> set ?f2" by auto
    then show "\<not> prefix (latest @ [b]) (fst e)"
    proof cases
      case 1
      with ab show ?thesis by simp
    next
      case 2
      with below have "\<not> strict_prefix latest (fst e)" by blast
      then show ?thesis by (auto simp: strict_prefix_def prefix_def)
    qed
  qed
  from den have mb: "\<not> denied ev (OpMove (latest @ [b]))" by simp
  have m2: "move (denied ev) ?scratch ([folder] @ [b]) latest ?f3
      = (None, (latest @ [b], File cb) # ?f3)"
    using dir3 mb nb scratch_shape(5) [OF ab, of folder ca cb]
    by (rule move_into_dir [where den = "denied ev"])
  let ?f4 = "(latest @ [b], File cb) # ?f3"
  from m1 m2 have mv: "move_all (denied ev) ?scratch [folder] [a, b] latest ?f2 = (None, ?f4)"
    by simp
  from h rd mv scratch_shape(1-3) [OF ab, of folder ca cb]
  have x: "extract_install ev latest dp st = (None, ?st2\<lparr>files := ?f4\<rparr>)"
    by (simp add: extract_install_def Let_def)
  have none: "filter (\<lambda>e. fst e \<noteq> [] \<and> butlast (fst e) = latest) ?f2 = []"
  proof -
    have "\<forall>e \<in> set ?f2. \<not> (fst e \<noteq> [] \<and> butlast (fst e) = latest)"
    proof
      fix e assume e: "e \<in> set ?f2"
      show "\<not> (fst e \<noteq> [] \<and> butlast (fst e) = latest)"
      proof
        assume c: "fst e \<noteq> [] \<and> butlast (fst e) = latest"
        then have "fst e = latest @ [last (fst e)]" by (metis append_butlast_last_id)
        then have "strict_prefix latest (fst e)"
          by (metis strict_prefixI' )
        with below e show False by blast
      qed
    qed
    then show ?thesis by (simp add: filter_empty_conv)
  qed
  from ab none have ld: "listdir ?f4 latest = [b, a]" by (simp add: listdir_def)
  from ab have la: "lookup ?f4 (latest @ [a]) = Some (File ca)"
    and lb: "lookup ?f4 (latest @ [b]) = Some (File cb)" by (simp_all add: lookup_def)
  from x ld la lb show "fst (extract_install ev latest dp st) = None
     \<and> set (listdir (files (snd (extract_install ev latest dp st))) latest) = {a, b}
     \<and> lookup (files (snd (extract_install ev latest dp st))) (latest @ [a]) = Some (File ca)
     \<and> lookup (files (snd (extract_install ev latest dp st))) (latest @ [b]) = Some (File cb)"
    by auto
qed


lemma demo_install_premises:
  "wf_fs (files demo_installed)
   \<and> (\<forall>op. \<not> denied demo_env op)
   \<and> (\<forall>q x. prefix q [''opt'', ''Blender 4.1''] \<longrightarrow>
         lookup (files demo_installed) q \<noteq> Some (File x))
   \<and> lookup (files demo_installed) [''tmp'', ''blender-4.1.0-linux64.zip''] = Some (File ''PK1'')
   \<and> \<not> prefix [''opt'', ''Blender 4.1''] [''tmp'', ''blender-4.1.0-linux64.zip'']
   \<and> zip_opens demo_env ''PK1''
   \<and> zip_extractall demo_env ''PK1''
       = Inr [([''blender-4.1''], Dir), ([''blender-4.1'', ''A''], File ''a''),
              ([''blender-4.1'', ''B''], File ''b'')]
   \<and> ''A'' \<noteq> ''B''"
  by (auto simp: wf_fs_def demo_installed_def demo_env_def lookup_def prefix_Cons)

theorem install_single_folder_witness:
  "set (listdir (files (snd (extract_install demo_env [''opt'', ''Blender 4.1'']
                               [''tmp'', ''blender-4.1.0-linux64.zip''] demo_installed)))
         [''opt'', ''Blender 4.1'']) = {''A'', ''B''}"
  by (rule conjunct1 [OF conjunct2 [OF mp [OF install_single_folder demo_install_premises]]])

end
